theory Spec2Isabelle
  imports Complex_Main
begin

section \<open>The price store of \<^verbatim>\<open>condorgame/prices.py\<close>\<close>

subsection \<open>Data model\<close>

text \<open>
  \<^verbatim>\<open>PriceEntry = tuple[int, float]\<close>, \<^verbatim>\<open>Asset = str\<close>. Timestamps are Python's
  unbounded integers. A price is a payload that the store only copies: it is never
  compared and never computed with, so it is modelled as a real number.
\<close>

type_synonym asset = string
type_synonym price_t = real
type_synonym price_entry = "int \<times> price_t"

text \<open>
  The value of \<^verbatim>\<open>self.data[symbol]\<close>: the dictionary \<^verbatim>\<open>{"ts": [], "price": []}\<close>
  holding two parallel lists.
\<close>

record series =
  ts :: "int list"
  price :: "price_t list"

text \<open>\<^verbatim>\<open>class PriceStore\<close>: the attributes \<^verbatim>\<open>data\<close> and \<^verbatim>\<open>window_days\<close>.\<close>

record price_store =
  data :: "asset \<rightharpoonup> series"
  window_days :: int

text \<open>
  The exceptions the module can raise: an index into an empty or too short list, and the
  range errors of the \<^verbatim>\<open>datetime\<close> arithmetic (\<^verbatim>\<open>ValueError\<close>, \<^verbatim>\<open>OSError\<close> or
  \<^verbatim>\<open>OverflowError\<close> of \<^verbatim>\<open>fromtimestamp\<close>, \<^verbatim>\<open>OverflowError\<close> of \<^verbatim>\<open>timedelta\<close> and of
  the subtraction).
\<close>

datatype py_error = IndexError | ValueError | OverflowError | OSError

definition empty_series :: series where
  "empty_series = \<lparr>ts = [], price = []\<rparr>"

text \<open>\<^verbatim>\<open>__init__(self, window_days=30)\<close>\<close>

definition PriceStore :: "int \<Rightarrow> price_store" where
  "PriceStore w = \<lparr>data = Map.empty, window_days = w\<rparr>"

subsection \<open>Library functions the module calls\<close>

text \<open>
  \<^verbatim>\<open>bisect.bisect_left(a, x)\<close> of the standard library, with \<^verbatim>\<open>lo = 0\<close> and
  \<^verbatim>\<open>hi = len(a)\<close>:
  \<^verbatim>\<open>while lo < hi: mid = (lo + hi) // 2; if a[mid] < x: lo = mid + 1 else: hi = mid\<close>.
\<close>

function bisect_loop :: "int list \<Rightarrow> int \<Rightarrow> nat \<Rightarrow> nat \<Rightarrow> nat" where
  "bisect_loop a x lo hi =
     (if lo < hi then
        (let mid = (lo + hi) div 2
         in if a ! mid < x then bisect_loop a x (mid + 1) hi
            else bisect_loop a x lo mid)
      else lo)"
  by pat_completeness auto
termination
  by (relation "measure (\<lambda>(a, x, lo, hi). hi - lo)") auto

declare bisect_loop.simps [simp del]

definition bisect_left :: "int list \<Rightarrow> int \<Rightarrow> nat" where
  "bisect_left a x = bisect_loop a x 0 (length a)"

text \<open>
  An aware UTC \<^verbatim>\<open>datetime\<close> holding whole seconds is represented by its number of
  seconds since the epoch. \<^verbatim>\<open>datetime\<close> covers the years 1 to 9999:
  \<^verbatim>\<open>datetime.min\<close> is second \<open>-62135596800\<close> and the last whole second is
  \<open>253402300799\<close>.
\<close>

definition MIN_TS :: int where
  "MIN_TS = - 62135596800"

definition MAX_TS :: int where
  "MAX_TS = 253402300799"

text \<open>
  \<^verbatim>\<open>datetime.fromtimestamp(t, tz=timezone.utc)\<close> for an integer \<open>t\<close>, as CPython
  behaves where \<^verbatim>\<open>time_t\<close> has 64 bits and the year of the C library's \<^verbatim>\<open>gmtime\<close> has
  32 bits. The conversion to \<^verbatim>\<open>time_t\<close> comes first (\<^verbatim>\<open>OverflowError\<close>), then
  \<^verbatim>\<open>gmtime\<close> (\<^verbatim>\<open>OSError\<close> when the year does not fit), then the test of the year
  against the \<^verbatim>\<open>datetime\<close> range (\<^verbatim>\<open>ValueError\<close>, "year out of range").
\<close>

definition TIME_T_MIN :: int where
  "TIME_T_MIN = - 9223372036854775808"

definition TIME_T_MAX :: int where
  "TIME_T_MAX = 9223372036854775807"

definition GMTIME_MIN :: int where
  "GMTIME_MIN = - 67768040609740800"

definition GMTIME_MAX :: int where
  "GMTIME_MAX = 67768036191676799"

definition fromtimestamp :: "int \<Rightarrow> py_error + int" where
  "fromtimestamp t =
     (if t < TIME_T_MIN \<or> TIME_T_MAX < t then Inl OverflowError
      else if t < GMTIME_MIN \<or> GMTIME_MAX < t then Inl OSError
      else if t < MIN_TS \<or> MAX_TS < t then Inl ValueError
      else Inr t)"

text \<open>\<^verbatim>\<open>timedelta(days=n)\<close> in seconds; the magnitude of \<open>n\<close> is limited.\<close>

definition timedelta_days :: "int \<Rightarrow> py_error + int" where
  "timedelta_days n =
     (if 999999999 < \<bar>n\<bar> then Inl OverflowError else Inr (86400 * n))"

text \<open>\<^verbatim>\<open>datetime - timedelta\<close>: the result must be a \<^verbatim>\<open>datetime\<close> again.\<close>

definition datetime_sub :: "int \<Rightarrow> int \<Rightarrow> py_error + int" where
  "datetime_sub d delta =
     (if d - delta < MIN_TS \<or> MAX_TS < d - delta then Inl OverflowError
      else Inr (d - delta))"

text \<open>
  The expression used in both \<^verbatim>\<open>add_prices\<close> and \<^verbatim>\<open>get_prices\<close>:
  \<^verbatim>\<open>int((datetime.fromtimestamp(t, tz=timezone.utc) - timedelta(days=n)).timestamp())\<close>.
  Python evaluates the operands left to right. \<^verbatim>\<open>timestamp()\<close> of a whole second in the
  \<^verbatim>\<open>datetime\<close> range is an exact float, so \<^verbatim>\<open>int\<close> returns that second.
\<close>

definition cutoff_ts :: "int \<Rightarrow> int \<Rightarrow> py_error + int" where
  "cutoff_ts t n =
     (case fromtimestamp t of
        Inl e \<Rightarrow> Inl e
      | Inr d \<Rightarrow>
          (case timedelta_days n of
             Inl e \<Rightarrow> Inl e
           | Inr delta \<Rightarrow> datetime_sub d delta))"

text \<open>
  \<^verbatim>\<open>self.data\<close> is a \<^verbatim>\<open>defaultdict\<close>. Indexing it (\<^verbatim>\<open>self.data[symbol]\<close>) creates
  the empty series for an unknown key and stores it; \<^verbatim>\<open>self.data.get(asset)\<close> only looks
  the key up. Both return the store they leave behind.
\<close>

definition dd_getitem :: "price_store \<Rightarrow> asset \<Rightarrow> series \<times> price_store" where
  "dd_getitem s symbol =
     (case data s symbol of
        Some d \<Rightarrow> (d, s)
      | None \<Rightarrow> (empty_series, s\<lparr>data := (data s)(symbol \<mapsto> empty_series)\<rparr>))"

definition dd_get :: "price_store \<Rightarrow> asset \<Rightarrow> series option \<times> price_store" where
  "dd_get s asset = (data s asset, s)"

text \<open>
  The series \<^verbatim>\<open>d\<close> is a mutable object referenced from \<^verbatim>\<open>self.data\<close>: every update of
  \<^verbatim>\<open>d\<close> is an update of the store. \<open>store_series\<close> writes the updated object back.
\<close>

definition store_series :: "price_store \<Rightarrow> asset \<Rightarrow> series \<Rightarrow> price_store" where
  "store_series s symbol d = s\<lparr>data := (data s)(symbol \<mapsto> d)\<rparr>"

subsection \<open>\<^verbatim>\<open>add_prices\<close>\<close>

text \<open>\<^verbatim>\<open>d["ts"].append(t); d["price"].append(p)\<close>\<close>

definition append_entry :: "series \<Rightarrow> int \<Rightarrow> price_t \<Rightarrow> series" where
  "append_entry d t p = d\<lparr>ts := ts d @ [t], price := price d @ [p]\<rparr>"

text \<open>
  The loop of the merge path (lines 39 to 46), over \<^verbatim>\<open>zip(ts_new, price_new)\<close>, with the
  variable \<^verbatim>\<open>last_ts\<close>. \<^verbatim>\<open>d["price"][-1] = p\<close> raises \<^verbatim>\<open>IndexError\<close> on an empty
  list; the updates made before an exception stay.
\<close>

fun merge_loop ::
  "series \<Rightarrow> int option \<Rightarrow> price_entry list \<Rightarrow> series \<times> py_error option" where
  "merge_loop d last_ts [] = (d, None)"
| "merge_loop d last_ts ((t, p) # es) =
     (case last_ts of
        None \<Rightarrow> merge_loop (append_entry d t p) (Some t) es
      | Some l \<Rightarrow>
          if l < t then merge_loop (append_entry d t p) (Some t) es
          else if t = l then
            (if price d = [] then (d, Some IndexError)
             else merge_loop (d\<lparr>price := (price d)[length (price d) - 1 := p]\<rparr>) last_ts es)
          else merge_loop d last_ts es)"

text \<open>Lines 48 to 54: "Drop old points".\<close>

definition prune :: "series \<Rightarrow> series \<times> py_error option" where
  "prune d =
     (if 0 < length (ts d) then
        (case cutoff_ts (ts d ! 0) 5 of
           Inl e \<Rightarrow> (d, Some e)
         | Inr cutoff \<Rightarrow>
             (let i = bisect_left (ts d) cutoff
              in if 0 < i then (d\<lparr>ts := drop i (ts d), price := drop i (price d)\<rparr>, None)
                 else (d, None)))
      else (d, None))"

text \<open>Lines 32 to 46: the fast path and the merge path.\<close>

definition insert_entries :: "series \<Rightarrow> price_entry list \<Rightarrow> series \<times> py_error option" where
  "insert_entries d entries =
     (let ts_new = map fst entries; price_new = map snd entries
      in if ts d = [] \<or> last (ts d) < ts_new ! 0
         then (d\<lparr>ts := ts d @ ts_new, price := price d @ price_new\<rparr>, None)
         else merge_loop d (if ts d \<noteq> [] then Some (last (ts d)) else None)
                (zip ts_new price_new))"

text \<open>
  \<^verbatim>\<open>add_prices(self, symbol, entries)\<close> returns the store it leaves behind and the
  exception it raised, if any.
\<close>

definition add_prices ::
  "price_store \<Rightarrow> asset \<Rightarrow> price_entry list \<Rightarrow> price_store \<times> py_error option" where
  "add_prices s symbol entries =
     (if entries = [] then (s, None)
      else
        (let (d, s1) = dd_getitem s symbol;
             (d1, e1) = insert_entries d entries
         in case e1 of
              Some e \<Rightarrow> (store_series s1 symbol d1, Some e)
            | None \<Rightarrow>
                (let (d2, e2) = prune d1
                 in (store_series s1 symbol d2, e2))))"

text \<open>\<^verbatim>\<open>add_price(self, symbol, price, timestamp)\<close>\<close>

definition add_price ::
  "price_store \<Rightarrow> asset \<Rightarrow> price_t \<Rightarrow> int \<Rightarrow> price_store \<times> py_error option" where
  "add_price s symbol p timestamp = add_prices s symbol [(timestamp, p)]"

text \<open>
  A sequence of \<^verbatim>\<open>add_prices\<close> calls on one store. A call that raises leaves its updates
  in the store, and the caller goes on with that store.
\<close>

fun add_prices_calls :: "price_store \<Rightarrow> (asset \<times> price_entry list) list \<Rightarrow> price_store" where
  "add_prices_calls s [] = s"
| "add_prices_calls s ((symbol, entries) # cs) =
     add_prices_calls (fst (add_prices s symbol entries)) cs"

subsection \<open>The queries\<close>

text \<open>Lines 83 to 87: \<^verbatim>\<open>if days:\<close> is false for \<^verbatim>\<open>None\<close> and for \<^verbatim>\<open>0\<close>.\<close>

definition start_index :: "int list \<Rightarrow> int option \<Rightarrow> py_error + nat" where
  "start_index tss days =
     (case days of
        None \<Rightarrow> Inr 0
      | Some k \<Rightarrow>
          if k \<noteq> 0 then
            (case cutoff_ts (last tss) k of
               Inl e \<Rightarrow> Inl e
             | Inr cutoff \<Rightarrow> Inr (bisect_left tss cutoff))
          else Inr 0)"

text \<open>
  The loop of lines 99 to 103 over the indices \<^verbatim>\<open>range(start_idx + 1, n)\<close>, with the
  variables \<^verbatim>\<open>target_next\<close> and \<^verbatim>\<open>result\<close>.
\<close>

fun scan ::
  "int list \<Rightarrow> price_t list \<Rightarrow> int \<Rightarrow> nat list \<Rightarrow> int \<Rightarrow> price_entry list
     \<Rightarrow> py_error + price_entry list" where
  "scan tss prs resolution [] target_next result = Inr result"
| "scan tss prs resolution (i # is) target_next result =
     (let t = tss ! i
      in if target_next \<le> t then
           (if i < length prs
            then scan tss prs resolution is (t + resolution) (result @ [(t, prs ! i)])
            else Inl IndexError)
         else scan tss prs resolution is target_next result)"

text \<open>
  \<^verbatim>\<open>get_prices(self, asset, days=None, resolution=60)\<close>. A query returns its result, or
  the exception raised, and the store it leaves behind.
\<close>

definition get_prices ::
  "price_store \<Rightarrow> asset \<Rightarrow> int option \<Rightarrow> int
     \<Rightarrow> (py_error + price_entry list) \<times> price_store" where
  "get_prices s asset days resolution =
     (let (dopt, s') = dd_get s asset
      in case dopt of
           None \<Rightarrow> (Inr [], s')
         | Some d \<Rightarrow>
             if ts d = [] then (Inr [], s')
             else
               (case start_index (ts d) days of
                  Inl e \<Rightarrow> (Inl e, s')
                | Inr start_idx \<Rightarrow>
                    (let n = length (ts d)
                     in if n \<le> start_idx then (Inr [], s')
                        else if start_idx < length (price d) then
                          (scan (ts d) (price d) resolution [start_idx + 1..<n]
                             (ts d ! start_idx + resolution)
                             [(ts d ! start_idx, price d ! start_idx)], s')
                        else (Inl IndexError, s'))))"

text \<open>\<^verbatim>\<open>get_last_price(self, asset)\<close>\<close>

definition get_last_price ::
  "price_store \<Rightarrow> asset \<Rightarrow> (py_error + price_entry option) \<times> price_store" where
  "get_last_price s asset =
     (let (dopt, s') = dd_get s asset
      in case dopt of
           None \<Rightarrow> (Inr None, s')
         | Some d \<Rightarrow>
             if ts d = [] then (Inr None, s')
             else if price d = [] then (Inl IndexError, s')
             else (Inr (Some (last (ts d), last (price d))), s'))"

text \<open>\<^verbatim>\<open>prices[i]\<close> for an index \<open>i \<ge> 0\<close>.\<close>

definition entry_at :: "int list \<Rightarrow> price_t list \<Rightarrow> nat \<Rightarrow> py_error + price_entry option" where
  "entry_at tss prs i = (if i < length prs then Inr (Some (tss ! i, prs ! i)) else Inl IndexError)"

text \<open>\<^verbatim>\<open>get_closest_price(self, asset, time)\<close>\<close>

definition get_closest_price ::
  "price_store \<Rightarrow> asset \<Rightarrow> int \<Rightarrow> (py_error + price_entry option) \<times> price_store" where
  "get_closest_price s asset time =
     (let (dopt, s') = dd_get s asset
      in case dopt of
           None \<Rightarrow> (Inr None, s')
         | Some d \<Rightarrow>
             if ts d = [] then (Inr None, s')
             else
               (let pos = bisect_left (ts d) time
                in if pos = 0 then (entry_at (ts d) (price d) 0, s')
                   else if pos = length (ts d) then
                     (if price d = [] then (Inl IndexError, s')
                      else (Inr (Some (last (ts d), last (price d))), s'))
                   else
                     (let i_before = pos - 1; i_after = pos
                      in if time - ts d ! i_before \<le> ts d ! i_after - time
                         then (entry_at (ts d) (price d) i_before, s')
                         else (entry_at (ts d) (price d) i_after, s'))))"

subsection \<open>Predicates used in the properties\<close>

text \<open>
  The relation between the loop variable \<^verbatim>\<open>last_ts\<close> of the merge path and the stored
  timestamps: it is \<^verbatim>\<open>None\<close> for an empty list and the last timestamp otherwise.
\<close>

fun tracks_last :: "int option \<Rightarrow> int list \<Rightarrow> bool" where
  "tracks_last None xs = (xs = [])"
| "tracks_last (Some l) xs = (xs \<noteq> [] \<and> last xs = l)"

subsection \<open>The store of the end-to-end scenarios\<close>

text \<open>
  The series and the store that the insert of scenario 1 builds: three ticks one minute
  apart for the asset \<^verbatim>\<open>"X"\<close>.
\<close>

definition scenario_series :: series where
  "scenario_series = \<lparr>ts = [1000, 1060, 1120], price = [100, 101, 102]\<rparr>"

definition scenario_store :: price_store where
  "scenario_store = \<lparr>data = [''X'' \<mapsto> scenario_series], window_days = 30\<rparr>"





section \<open>Properties\<close>

subsection \<open>Binary search\<close>

lemma bisect_loop_range:
  "lo \<le> hi \<Longrightarrow> lo \<le> bisect_loop a x lo hi \<and> bisect_loop a x lo hi \<le> hi"
proof (induction a x lo hi rule: bisect_loop.induct)
  case (1 a x lo hi)
  show ?case
  proof (cases "lo < hi")
    case False
    with "1.prems" show ?thesis by (simp add: bisect_loop.simps)
  next
    case True
    let ?mid = "(lo + hi) div 2"
    from True have m: "lo \<le> ?mid" "?mid < hi" by auto
    show ?thesis
    proof (cases "a ! ?mid < x")
      case True
      with "1.IH"(1)[OF \<open>lo < hi\<close> refl True] m \<open>lo < hi\<close> show ?thesis
        by (subst (1 2) bisect_loop.simps) (simp add: Let_def)
    next
      case False
      with "1.IH"(2)[OF \<open>lo < hi\<close> refl False] m \<open>lo < hi\<close> show ?thesis
        by (subst (1 2) bisect_loop.simps) (simp add: Let_def)
    qed
  qed
qed

text \<open>
  On a sorted list the loop keeps every element left of \<open>lo\<close> below \<open>x\<close> and every element
  from \<open>hi\<close> on at or above \<open>x\<close>.
\<close>

lemma bisect_loop_split:
  assumes "sorted a" "lo \<le> hi" "hi \<le> length a"
    and "\<forall>j<lo. a ! j < x" and "\<forall>j. hi \<le> j \<and> j < length a \<longrightarrow> x \<le> a ! j"
  shows "(\<forall>j<bisect_loop a x lo hi. a ! j < x) \<and>
         (\<forall>j. bisect_loop a x lo hi \<le> j \<and> j < length a \<longrightarrow> x \<le> a ! j)"
  using assms
proof (induction a x lo hi rule: bisect_loop.induct)
  case (1 a x lo hi)
  show ?case
  proof (cases "lo < hi")
    case False
    with "1.prems" have "lo = hi" by simp
    with "1.prems" show ?thesis by (simp add: bisect_loop.simps)
  next
    case True
    let ?mid = "(lo + hi) div 2"
    from True have m: "lo \<le> ?mid" "?mid < hi" by auto
    with "1.prems" have ml: "?mid < length a" by simp
    show ?thesis
    proof (cases "a ! ?mid < x")
      case lt: True
      have below: "\<forall>j<?mid + 1. a ! j < x"
      proof (intro allI impI)
        fix j assume "j < ?mid + 1"
        then have "j \<le> ?mid" by simp
        with \<open>sorted a\<close> ml have "a ! j \<le> a ! ?mid" by (simp add: sorted_nth_mono)
        with lt show "a ! j < x" by simp
      qed
      have eq: "bisect_loop a x lo hi = bisect_loop a x (?mid + 1) hi"
        using True lt by (subst bisect_loop.simps) (simp add: Let_def)
      from "1.IH"(1)[OF True refl lt \<open>sorted a\<close> _ \<open>hi \<le> length a\<close> below "1.prems"(5)] m
      show ?thesis unfolding eq by simp
    next
      case ge: False
      have above: "\<forall>j. ?mid \<le> j \<and> j < length a \<longrightarrow> x \<le> a ! j"
      proof (intro allI impI)
        fix j assume "?mid \<le> j \<and> j < length a"
        with \<open>sorted a\<close> have "a ! ?mid \<le> a ! j" by (simp add: sorted_nth_mono)
        with ge show "x \<le> a ! j" by simp
      qed
      have eq: "bisect_loop a x lo hi = bisect_loop a x lo ?mid"
        using True ge by (subst bisect_loop.simps) (simp add: Let_def)
      from "1.IH"(2)[OF True refl ge \<open>sorted a\<close> _ _ "1.prems"(4) above] m ml
      show ?thesis unfolding eq by simp
    qed
  qed
qed

lemma bisect_left_le: "bisect_left a x \<le> length a"
  using bisect_loop_range[of 0 "length a" a x] by (simp add: bisect_left_def)

lemma bisect_left_below: "sorted a \<Longrightarrow> j < bisect_left a x \<Longrightarrow> a ! j < x"
  using bisect_loop_split[of a 0 "length a" x] by (simp add: bisect_left_def)

lemma bisect_left_above:
  "sorted a \<Longrightarrow> bisect_left a x \<le> j \<Longrightarrow> j < length a \<Longrightarrow> x \<le> a ! j"
  using bisect_loop_split[of a 0 "length a" x] by (simp add: bisect_left_def)

subsection \<open>Empty batches and reads\<close>

text \<open>Indexing the \<^verbatim>\<open>defaultdict\<close> with an unknown key stores an empty series under it.\<close>

lemma dd_getitem_creates:
  "data s symbol = None \<Longrightarrow> data (snd (dd_getitem s symbol)) symbol = Some empty_series"
  by (simp add: dd_getitem_def)

text \<open>
  Claim C9. For every store and every asset, \<^verbatim>\<open>add_prices\<close> with an empty list of
  entries returns the store as it was and raises nothing; since the whole store is
  unchanged, no series appears for an asset that was unknown.
\<close>

theorem add_prices_empty_batch:
  "add_prices s symbol [] = (s, None)"
  by (simp add: add_prices_def)

text \<open>
  Claim C10. Each of the three queries leaves behind exactly the store it was called on,
  whatever it returns or raises: they reach the series through the non-creating
  \<^verbatim>\<open>get\<close>, so an unknown asset gets no empty series.
\<close>

theorem reads_leave_store_unchanged:
  "snd (get_prices s asset days resolution) = s \<and>
   snd (get_last_price s asset) = s \<and>
   snd (get_closest_price s asset time) = s"
  by (simp add: get_prices_def get_last_price_def get_closest_price_def dd_get_def Let_def
      split: option.split sum.split)

text \<open>
  Claim C8. When nothing is stored for an asset (the asset is unknown, or its series has
  no timestamps), \<^verbatim>\<open>get_prices\<close> returns the empty list and \<^verbatim>\<open>get_last_price\<close> and
  \<^verbatim>\<open>get_closest_price\<close> return \<^verbatim>\<open>None\<close>; all three return normally.
\<close>

theorem reads_without_data:
  assumes "data s asset = None \<or> (\<exists>d. data s asset = Some d \<and> ts d = [])"
  shows "fst (get_prices s asset days resolution) = Inr [] \<and>
         fst (get_last_price s asset) = Inr None \<and>
         fst (get_closest_price s asset time) = Inr None"
  using assms
  by (auto simp add: get_prices_def get_last_price_def get_closest_price_def dd_get_def)

text \<open>
  The theorem at an unknown asset of a new store, and at an asset whose series exists and
  is empty.
\<close>

theorem reads_without_data_witness:
  "data (PriceStore 30) ''UNKNOWN'' = None \<and>
   fst (get_prices (PriceStore 30) ''UNKNOWN'' None 60) = Inr [] \<and>
   fst (get_last_price (PriceStore 30) ''UNKNOWN'') = Inr None \<and>
   fst (get_closest_price (PriceStore 30) ''UNKNOWN'' 1090) = Inr None \<and>
   data (snd (dd_getitem (PriceStore 30) ''X'')) ''X'' = Some empty_series \<and>
   ts empty_series = [] \<and>
   fst (get_prices (snd (dd_getitem (PriceStore 30) ''X'')) ''X'' (Some 2) 60) = Inr [] \<and>
   fst (get_last_price (snd (dd_getitem (PriceStore 30) ''X'')) ''X'') = Inr None \<and>
   fst (get_closest_price (snd (dd_getitem (PriceStore 30) ''X'')) ''X'' 7) = Inr None"
proof -
  have u: "data (PriceStore 30) ''UNKNOWN'' = None"
    by (simp add: PriceStore_def)
  have e: "data (snd (dd_getitem (PriceStore 30) ''X'')) ''X'' = Some empty_series"
    by (simp add: PriceStore_def dd_getitem_def)
  have t: "ts empty_series = []"
    by (simp add: empty_series_def)
  from reads_without_data[of "PriceStore 30" "''UNKNOWN''" None 60 1090] u
    reads_without_data[of "snd (dd_getitem (PriceStore 30) ''X'')" "''X''" "Some 2" 60 7] e t
  show ?thesis by simp
qed

subsection \<open>Pruning\<close>

lemma cutoff_ts_value: "cutoff_ts t n = Inr c \<Longrightarrow> c = t - 86400 * n"
  by (simp add: cutoff_ts_def fromtimestamp_def TIME_T_MIN_def TIME_T_MAX_def GMTIME_MIN_def GMTIME_MAX_def timedelta_days_def datetime_sub_def
      split: if_splits)

lemma cutoff_ts_defined:
  "MIN_TS \<le> t \<Longrightarrow> t \<le> MAX_TS \<Longrightarrow> \<bar>n\<bar> \<le> 999999999 \<Longrightarrow>
   MIN_TS \<le> t - 86400 * n \<Longrightarrow> t - 86400 * n \<le> MAX_TS \<Longrightarrow>
   cutoff_ts t n = Inr (t - 86400 * n)"
  by (simp add: cutoff_ts_def fromtimestamp_def TIME_T_MIN_def TIME_T_MAX_def GMTIME_MIN_def
      GMTIME_MAX_def timedelta_days_def datetime_sub_def MIN_TS_def MAX_TS_def)

lemma bisect_left_first:
  assumes "sorted a" "a \<noteq> []" "x \<le> a ! 0"
  shows "bisect_left a x = 0"
proof (rule ccontr)
  assume "bisect_left a x \<noteq> 0"
  then have "0 < bisect_left a x" by simp
  from bisect_left_below[OF \<open>sorted a\<close> this] assms(3) show False by simp
qed

lemma prune_sorted:
  assumes "sorted (ts d)"
  shows "fst (prune d) = d"
proof (cases "ts d = []")
  case True
  then show ?thesis by (simp add: prune_def)
next
  case False
  show ?thesis
  proof (cases "cutoff_ts (ts d ! 0) 5")
    case (Inl e)
    with False show ?thesis by (simp add: prune_def)
  next
    case (Inr c)
    then have "c \<le> ts d ! 0" by (auto dest: cutoff_ts_value)
    with assms False have "bisect_left (ts d) c = 0" by (rule bisect_left_first)
    with False Inr show ?thesis by (simp add: prune_def)
  qed
qed

lemma add_prices_window_days:
  "add_prices (s\<lparr>window_days := w\<rparr>) symbol entries =
     (case add_prices s symbol entries of (s', e) \<Rightarrow> (s'\<lparr>window_days := w\<rparr>, e))"
  by (simp add: add_prices_def dd_getitem_def store_series_def Let_def
      split: option.split prod.split)

text \<open>
  Claim C2. For a series sorted by timestamp the pruning step returns the series as it
  was, whether it computes a cutoff or the date arithmetic raises. Whenever the cutoff is
  computed it is the oldest stored timestamp minus 5 days, it is below every stored
  timestamp, and the binary search returns index 0. The attribute \<^verbatim>\<open>window_days\<close> has
  no influence on \<^verbatim>\<open>add_prices\<close>: with another value the call returns the same series,
  the same exception, and that value untouched.
\<close>

theorem prune_never_trims:
  assumes "sorted (ts d)"
  shows "fst (prune d) = d \<and>
         (\<forall>c. ts d \<noteq> [] \<and> cutoff_ts (ts d ! 0) 5 = Inr c \<longrightarrow>
            c = ts d ! 0 - 5 * 86400 \<and> (\<forall>t \<in> set (ts d). c < t) \<and>
            bisect_left (ts d) c = 0) \<and>
         add_prices (s\<lparr>window_days := w\<rparr>) symbol entries =
           (case add_prices s symbol entries of (s', e) \<Rightarrow> (s'\<lparr>window_days := w\<rparr>, e))"
proof (intro conjI allI impI)
  show "fst (prune d) = d" using assms by (rule prune_sorted)
next
  fix c assume a: "ts d \<noteq> [] \<and> cutoff_ts (ts d ! 0) 5 = Inr c"
  then show c: "c = ts d ! 0 - 5 * 86400" by (auto dest: cutoff_ts_value)
  show "\<forall>t \<in> set (ts d). c < t"
  proof
    fix t assume "t \<in> set (ts d)"
    then obtain j where "j < length (ts d)" "t = ts d ! j" by (auto simp: in_set_conv_nth)
    with assms have "ts d ! 0 \<le> t" by (simp add: sorted_nth_mono)
    with c show "c < t" by simp
  qed
  from c have "c \<le> ts d ! 0" by simp
  with assms a show "bisect_left (ts d) c = 0" by (simp add: bisect_left_first)
next
  show "add_prices (s\<lparr>window_days := w\<rparr>) symbol entries =
           (case add_prices s symbol entries of (s', e) \<Rightarrow> (s'\<lparr>window_days := w\<rparr>, e))"
    by (rule add_prices_window_days)
qed

text \<open>The theorem at the series of three ticks one minute apart.\<close>

theorem prune_never_trims_witness:
  "sorted (ts \<lparr>ts = [1000, 1060, 1120], price = [100, 101, 102]\<rparr>) \<and>
   cutoff_ts 1000 5 = Inr (- 431000) \<and>
   prune \<lparr>ts = [1000, 1060, 1120], price = [100, 101, 102]\<rparr> =
     (\<lparr>ts = [1000, 1060, 1120], price = [100, 101, 102]\<rparr>, None) \<and>
   bisect_left [1000, 1060, 1120] (- 431000) = 0"
proof -
  let ?d = "\<lparr>ts = [1000, 1060, 1120], price = [100, 101, 102]\<rparr> :: series"
  have s: "sorted (ts ?d)" by simp
  have c: "cutoff_ts 1000 5 = Inr (- 431000)"
    by (simp add: cutoff_ts_def fromtimestamp_def TIME_T_MIN_def TIME_T_MAX_def GMTIME_MIN_def GMTIME_MAX_def timedelta_days_def datetime_sub_def
        MIN_TS_def MAX_TS_def)
  from prune_never_trims[OF s, where s = "PriceStore 30" and w = 7 and symbol = "''X''" and entries = "[(1000, 100)]"] c
  have "fst (prune ?d) = ?d" and b: "bisect_left [1000, 1060, 1120] (- 431000) = 0"
    by simp_all
  moreover have "snd (prune ?d) = None"
    using c b by (simp add: prune_def)
  ultimately have "prune ?d = (?d, None)" by (simp add: prod_eq_iff)
  with s c b show ?thesis by simp
qed

subsection \<open>The timestamps of a series stay strictly increasing\<close>

lemma strict_snoc:
  assumes "sorted_wrt (<) xs" "xs = [] \<or> last xs < (t::int)"
  shows "sorted_wrt (<) (xs @ [t])"
proof (cases "xs = []")
  case True
  then show ?thesis by simp
next
  case False
  with assms have lt: "last xs < t" by simp
  have "\<forall>x \<in> set xs. x < t"
  proof
    fix x assume "x \<in> set xs"
    then obtain j where j: "j < length xs" "x = xs ! j" by (auto simp: in_set_conv_nth)
    from assms(1) have "sorted xs" by (simp add: strict_sorted_iff)
    with j False have "x \<le> last xs"
      by (simp add: last_conv_nth sorted_nth_mono)
    with lt show "x < t" by simp
  qed
  with assms(1) show ?thesis by (simp add: sorted_wrt_append)
qed

lemma strict_append:
  assumes "sorted_wrt (<) xs" "sorted_wrt (<) ys" "ys \<noteq> []" "xs = [] \<or> last xs < (ys ! 0 :: int)"
  shows "sorted_wrt (<) (xs @ ys)"
proof (cases "xs = []")
  case True
  with assms show ?thesis by simp
next
  case False
  with assms have lt: "last xs < ys ! 0" by simp
  from assms have sx: "sorted xs" and sy: "sorted ys" by (simp_all add: strict_sorted_iff)
  have "\<forall>x \<in> set xs. \<forall>y \<in> set ys. x < y"
  proof (intro ballI)
    fix x y assume "x \<in> set xs" "y \<in> set ys"
    then obtain j k where j: "j < length xs" "x = xs ! j" and k: "k < length ys" "y = ys ! k"
      by (auto simp: in_set_conv_nth)
    from sx j False have "x \<le> last xs" by (simp add: last_conv_nth sorted_nth_mono)
    moreover from sy k have "ys ! 0 \<le> y" by (simp add: sorted_nth_mono)
    ultimately show "x < y" using lt by simp
  qed
  with assms show ?thesis by (simp add: sorted_wrt_append)
qed

text \<open>The merge loop keeps the timestamps strictly increasing, whatever the batch.\<close>

lemma merge_loop_strict:
  "sorted_wrt (<) (ts d) \<Longrightarrow> tracks_last last_ts (ts d) \<Longrightarrow>
   sorted_wrt (<) (ts (fst (merge_loop d last_ts es)))"
proof (induction es arbitrary: d last_ts)
  case Nil
  then show ?case by simp
next
  case (Cons e es)
  obtain t p where e: "e = (t, p)" by (cases e)
  show ?case
  proof (cases last_ts)
    case None
    with Cons.prems have "ts d = []" by simp
    then have "sorted_wrt (<) (ts (append_entry d t p))" "tracks_last (Some t) (ts (append_entry d t p))"
      by (simp_all add: append_entry_def)
    from Cons.IH[OF this] None e show ?thesis by simp
  next
    case (Some l)
    with Cons.prems have l: "ts d \<noteq> []" "last (ts d) = l" by simp_all
    show ?thesis
    proof (cases "l < t")
      case True
      with Cons.prems(1) l have "sorted_wrt (<) (ts (append_entry d t p))"
        by (simp add: append_entry_def strict_snoc)
      moreover have "tracks_last (Some t) (ts (append_entry d t p))"
        by (simp add: append_entry_def)
      ultimately show ?thesis using Cons.IH Some e True by simp
    next
      case False
      show ?thesis
      proof (cases "t = l")
        case True
        show ?thesis
        proof (cases "price d = []")
          case True
          with \<open>t = l\<close> Some e Cons.prems show ?thesis by simp
        next
          case False
          let ?d = "d\<lparr>price := (price d)[length (price d) - 1 := p]\<rparr>"
          from Cons.prems have "sorted_wrt (<) (ts ?d)" "tracks_last last_ts (ts ?d)" by simp_all
          from Cons.IH[OF this] False \<open>t = l\<close> Some e show ?thesis by simp
        qed
      next
        case neq: False
        from Cons.IH[OF Cons.prems] False neq Some e show ?thesis by simp
      qed
    qed
  qed
qed

lemma insert_entries_strict:
  assumes "sorted_wrt (<) (ts d)" "sorted_wrt (<) (map fst entries)" "entries \<noteq> []"
  shows "sorted_wrt (<) (ts (fst (insert_entries d entries)))"
proof (cases "ts d = [] \<or> last (ts d) < map fst entries ! 0")
  case True
  with assms have "sorted_wrt (<) (ts d @ map fst entries)"
    by (intro strict_append) simp_all
  with True show ?thesis by (simp add: insert_entries_def Let_def)
next
  case False
  then have "tracks_last (Some (last (ts d))) (ts d)" by simp
  from merge_loop_strict[OF assms(1) this] False show ?thesis
    by (simp add: insert_entries_def Let_def)
qed

lemma prune_strict:
  "sorted_wrt (<) (ts d) \<Longrightarrow> sorted_wrt (<) (ts (fst (prune d)))"
  by (simp add: prune_def Let_def sorted_wrt_drop split: sum.split)

lemma dd_getitem_strict:
  "(\<forall>d. data s symbol = Some d \<longrightarrow> sorted_wrt (<) (ts d)) \<Longrightarrow>
   sorted_wrt (<) (ts (fst (dd_getitem s symbol)))"
  by (simp add: dd_getitem_def empty_series_def split: option.split)

text \<open>What \<^verbatim>\<open>add_prices\<close> leaves in the store: one series is replaced, nothing else.\<close>

lemma add_prices_data:
  assumes "entries \<noteq> []"
  shows "\<exists>d'. data (fst (add_prices s symbol entries)) = (data s)(symbol \<mapsto> d') \<and>
           (d' = fst (insert_entries (fst (dd_getitem s symbol)) entries) \<or>
            d' = fst (prune (fst (insert_entries (fst (dd_getitem s symbol)) entries))))"
  using assms
  by (auto simp add: add_prices_def dd_getitem_def store_series_def Let_def
      split: option.split prod.split)

lemma add_prices_strict:
  assumes inv: "\<forall>a d. data s a = Some d \<longrightarrow> sorted_wrt (<) (ts d)"
    and batch: "sorted_wrt (<) (map fst entries)"
  shows "\<forall>a d. data (fst (add_prices s symbol entries)) a = Some d \<longrightarrow> sorted_wrt (<) (ts d)"
proof (cases "entries = []")
  case True
  with inv show ?thesis by (simp add: add_prices_def)
next
  case False
  let ?d0 = "fst (dd_getitem s symbol)"
  let ?d1 = "fst (insert_entries ?d0 entries)"
  from inv have "sorted_wrt (<) (ts ?d0)" by (simp add: dd_getitem_strict)
  then have d1: "sorted_wrt (<) (ts ?d1)" using batch False by (rule insert_entries_strict)
  then have d2: "sorted_wrt (<) (ts (fst (prune ?d1)))" by (rule prune_strict)
  from add_prices_data[OF False, of s symbol] obtain d' where
    d': "data (fst (add_prices s symbol entries)) = (data s)(symbol \<mapsto> d')"
      "d' = ?d1 \<or> d' = fst (prune ?d1)" by blast
  from d'(2) d1 d2 have "sorted_wrt (<) (ts d')" by auto
  with inv d'(1) show ?thesis by (simp split: if_splits)
qed

lemma add_prices_calls_strict:
  assumes "\<forall>a d. data s a = Some d \<longrightarrow> sorted_wrt (<) (ts d)"
    and "\<forall>c \<in> set calls. sorted_wrt (<) (map fst (snd c))"
  shows "\<forall>a d. data (add_prices_calls s calls) a = Some d \<longrightarrow> sorted_wrt (<) (ts d)"
  using assms
proof (induction calls arbitrary: s)
  case Nil
  then show ?case by simp
next
  case (Cons c calls)
  obtain symbol entries where c: "c = (symbol, entries)" by (cases c)
  with Cons.prems have "sorted_wrt (<) (map fst entries)" by simp
  with Cons.prems(1)
  have "\<forall>a d. data (fst (add_prices s symbol entries)) a = Some d \<longrightarrow> sorted_wrt (<) (ts d)"
    by (rule add_prices_strict)
  moreover from Cons.prems have "\<forall>c \<in> set calls. sorted_wrt (<) (map fst (snd c))" by simp
  ultimately show ?case using Cons.IH c by simp
qed

text \<open>
  Claim C1: after \<^verbatim>\<open>add_prices\<close> calls whose batches are sorted ascending by timestamp,
  every stored series is strictly increasing in timestamp and no two entries share a
  timestamp. The code breaks this on its fast path, which appends the whole batch without
  looking inside it: the sorted batch \<open>[(1000, 100), (1000, 105)]\<close>, sent to a new store,
  leaves two entries with the timestamp 1000.
\<close>

theorem add_prices_duplicate_in_batch:
  "sorted (map fst [(1000 :: int, 100 :: real), (1000, 105)]) \<and>
   data (add_prices_calls (PriceStore 30) [(''X'', [(1000, 100), (1000, 105)])]) ''X'' =
     Some \<lparr>ts = [1000, 1000], price = [100, 105]\<rparr> \<and>
   \<not> distinct (ts \<lparr>ts = [1000, 1000], price = [100, 105]\<rparr>)"
  by (simp add: add_prices_def dd_getitem_def PriceStore_def empty_series_def
      insert_entries_def prune_def cutoff_ts_def fromtimestamp_def TIME_T_MIN_def TIME_T_MAX_def GMTIME_MIN_def GMTIME_MAX_def timedelta_days_def
      datetime_sub_def MIN_TS_def MAX_TS_def bisect_left_def bisect_loop.simps
      store_series_def)

text \<open>
  The merge path does what the fast path misses. When the series already ends at 1000
  the same batch goes through the merge loop, which overwrites the last price twice and
  stores the timestamp once.
\<close>

lemma add_prices_duplicate_merge_path:
  "data (add_prices_calls (PriceStore 30)
      [(''X'', [(1000, 99)]), (''X'', [(1000, 100), (1000, 105)])]) ''X'' =
     Some \<lparr>ts = [1000], price = [105]\<rparr>"
  by (simp add: add_prices_def dd_getitem_def PriceStore_def empty_series_def
      insert_entries_def prune_def cutoff_ts_def fromtimestamp_def TIME_T_MIN_def
      TIME_T_MAX_def GMTIME_MIN_def GMTIME_MAX_def timedelta_days_def datetime_sub_def
      MIN_TS_def MAX_TS_def bisect_left_def bisect_loop.simps store_series_def)

text \<open>
  The fast path is the only place where a repeated timestamp gets in: when no batch
  repeats a timestamp (every batch is strictly increasing), every stored series is
  strictly increasing in timestamp and holds no timestamp twice, also when some of the
  calls raised in their pruning step.
\<close>

theorem add_prices_calls_strictly_increasing:
  assumes "\<forall>c \<in> set calls. sorted_wrt (<) (map fst (snd c))"
    and "data (add_prices_calls (PriceStore w) calls) asset = Some d"
  shows "sorted_wrt (<) (ts d) \<and> distinct (ts d)"
proof -
  have "\<forall>a d. data (PriceStore w) a = Some d \<longrightarrow> sorted_wrt (<) (ts d)"
    by (simp add: PriceStore_def)
  from add_prices_calls_strict[OF this assms(1)] assms(2)
  have "sorted_wrt (<) (ts d)" by blast
  then show ?thesis by (simp add: strict_sorted_iff)
qed

text \<open>
  Three such calls: a first batch, a batch that overlaps it (the merge path overwrites
  the price at 1060), and a batch for another asset.
\<close>

theorem add_prices_calls_strictly_increasing_witness:
  "data (add_prices_calls (PriceStore 30)
      [(''X'', [(1000, 100), (1060, 101)]), (''X'', [(1060, 105), (1120, 102)]),
       (''Y'', [(5, 1)])]) ''X'' =
     Some \<lparr>ts = [1000, 1060, 1120], price = [100, 105, 102]\<rparr> \<and>
   sorted_wrt (<) (ts \<lparr>ts = [1000, 1060, 1120], price = [100, 105, 102]\<rparr>) \<and>
   distinct (ts \<lparr>ts = [1000, 1060, 1120], price = [100, 105, 102]\<rparr>)"
proof -
  let ?calls = "[(''X'', [(1000, 100), (1060, 101)]), (''X'', [(1060, 105), (1120, 102)]),
       (''Y'', [(5, 1)])] :: (asset \<times> price_entry list) list"
  let ?d = "\<lparr>ts = [1000, 1060, 1120], price = [100, 105, 102]\<rparr> :: series"
  have batches: "\<forall>c \<in> set ?calls. sorted_wrt (<) (map fst (snd c))"
    by simp
  have stored: "data (add_prices_calls (PriceStore 30) ?calls) ''X'' = Some ?d"
    by (simp add: add_prices_def dd_getitem_def PriceStore_def empty_series_def
        insert_entries_def append_entry_def prune_def cutoff_ts_def fromtimestamp_def TIME_T_MIN_def TIME_T_MAX_def GMTIME_MIN_def GMTIME_MAX_def
        timedelta_days_def datetime_sub_def MIN_TS_def MAX_TS_def bisect_left_def
        bisect_loop.simps store_series_def)
  show ?thesis
    by (rule conjI[OF stored add_prices_calls_strictly_increasing[OF batches stored]])
qed

subsection \<open>Sorted batches keep the data model\<close>

lemma sorted_append_last:
  assumes "sorted xs" "sorted ys" "ys \<noteq> []" "xs = [] \<or> last xs \<le> (ys ! 0 :: int)"
  shows "sorted (xs @ ys)"
proof (cases "xs = []")
  case True
  with assms show ?thesis by simp
next
  case False
  with assms have le: "last xs \<le> ys ! 0" by simp
  have "\<forall>x \<in> set xs. \<forall>y \<in> set ys. x \<le> y"
  proof (intro ballI)
    fix x y assume "x \<in> set xs" "y \<in> set ys"
    then obtain j k where j: "j < length xs" "x = xs ! j" and k: "k < length ys" "y = ys ! k"
      by (auto simp: in_set_conv_nth)
    from assms(1) j False have "x \<le> last xs" by (simp add: last_conv_nth sorted_nth_mono)
    moreover from assms(2) k have "ys ! 0 \<le> y" by (simp add: sorted_nth_mono)
    ultimately show "x \<le> y" using le by simp
  qed
  with assms show ?thesis by (simp add: sorted_append)
qed

text \<open>The merge loop keeps the series sorted, with one price per timestamp.\<close>

lemma merge_loop_model:
  "sorted (ts d) \<Longrightarrow> length (price d) = length (ts d) \<Longrightarrow> tracks_last last_ts (ts d) \<Longrightarrow>
   sorted (ts (fst (merge_loop d last_ts es))) \<and>
   length (price (fst (merge_loop d last_ts es))) = length (ts (fst (merge_loop d last_ts es)))"
proof (induction es arbitrary: d last_ts)
  case Nil
  then show ?case by simp
next
  case (Cons e es)
  obtain t p where e: "e = (t, p)" by (cases e)
  let ?app = "append_entry d t p"
  have app_len: "length (price ?app) = length (ts ?app)"
    using Cons.prems(2) by (simp add: append_entry_def)
  have app_last: "tracks_last (Some t) (ts ?app)"
    by (simp add: append_entry_def)
  show ?case
  proof (cases last_ts)
    case None
    with Cons.prems have "ts d = []" by simp
    then have "sorted (ts ?app)" by (simp add: append_entry_def)
    from Cons.IH[OF this app_len app_last] None e show ?thesis by simp
  next
    case (Some l)
    with Cons.prems have l: "ts d \<noteq> []" "last (ts d) = l" by simp_all
    show ?thesis
    proof (cases "l < t")
      case True
      with Cons.prems(1) l have "sorted (ts ?app)"
        by (simp add: append_entry_def sorted_append_last)
      from Cons.IH[OF this app_len app_last] Some e True show ?thesis by simp
    next
      case False
      show ?thesis
      proof (cases "t = l")
        case True
        let ?d = "d\<lparr>price := (price d)[length (price d) - 1 := p]\<rparr>"
        from l Cons.prems(2) have "price d \<noteq> []" by auto
        moreover from Cons.prems have "sorted (ts ?d)" "length (price ?d) = length (ts ?d)"
          "tracks_last last_ts (ts ?d)" by simp_all
        from Cons.IH[OF this] have
          "sorted (ts (fst (merge_loop ?d last_ts es))) \<and>
           length (price (fst (merge_loop ?d last_ts es))) =
             length (ts (fst (merge_loop ?d last_ts es)))" .
        ultimately show ?thesis using True Some e by simp
      next
        case neq: False
        from Cons.IH[OF Cons.prems] False neq Some e show ?thesis by simp
      qed
    qed
  qed
qed

lemma insert_entries_model:
  assumes "sorted (ts d)" "length (price d) = length (ts d)"
    and "sorted (map fst entries)" "entries \<noteq> []"
  shows "sorted (ts (fst (insert_entries d entries))) \<and>
         length (price (fst (insert_entries d entries))) =
           length (ts (fst (insert_entries d entries)))"
proof (cases "ts d = [] \<or> last (ts d) < map fst entries ! 0")
  case True
  with assms have "sorted (ts d @ map fst entries)"
    by (intro sorted_append_last) auto
  with True assms(2) show ?thesis by (simp add: insert_entries_def Let_def)
next
  case False
  then have "tracks_last (Some (last (ts d))) (ts d)" by simp
  from merge_loop_model[OF assms(1,2) this] False show ?thesis
    by (simp add: insert_entries_def Let_def)
qed

lemma prune_model:
  "sorted (ts d) \<Longrightarrow> length (price d) = length (ts d) \<Longrightarrow>
   sorted (ts (fst (prune d))) \<and> length (price (fst (prune d))) = length (ts (fst (prune d)))"
  by (simp add: prune_sorted)


text \<open>
  Batches sorted by timestamp keep every stored series sorted by timestamp, with one price
  per timestamp: the data model under which the queries are specified.
\<close>

lemma add_prices_model:
  assumes inv: "\<forall>a d. data s a = Some d \<longrightarrow> sorted (ts d) \<and> length (price d) = length (ts d)"
    and batch: "sorted (map fst entries)"
  shows "\<forall>a d. data (fst (add_prices s symbol entries)) a = Some d \<longrightarrow>
           sorted (ts d) \<and> length (price d) = length (ts d)"
proof (cases "entries = []")
  case True
  with inv show ?thesis by (simp add: add_prices_def)
next
  case False
  let ?d0 = "fst (dd_getitem s symbol)"
  let ?d1 = "fst (insert_entries ?d0 entries)"
  have "sorted (ts ?d0) \<and> length (price ?d0) = length (ts ?d0)"
  proof (cases "data s symbol")
    case None
    then show ?thesis by (simp add: dd_getitem_def empty_series_def)
  next
    case (Some d)
    with inv have "sorted (ts d) \<and> length (price d) = length (ts d)" by blast
    with Some show ?thesis by (simp add: dd_getitem_def)
  qed
  then have "sorted (ts ?d0)" "length (price ?d0) = length (ts ?d0)" by blast+
  then have d1: "sorted (ts ?d1) \<and> length (price ?d1) = length (ts ?d1)"
    using batch False by (rule insert_entries_model)
  then have d2: "sorted (ts (fst (prune ?d1))) \<and>
      length (price (fst (prune ?d1))) = length (ts (fst (prune ?d1)))"
    by (simp add: prune_model)
  from add_prices_data[OF False, of s symbol] obtain d' where
    d': "data (fst (add_prices s symbol entries)) = (data s)(symbol \<mapsto> d')"
      "d' = ?d1 \<or> d' = fst (prune ?d1)" by blast
  from d'(2) d1 d2 have new: "sorted (ts d') \<and> length (price d') = length (ts d')" by blast
  show ?thesis
  proof (intro allI impI)
    fix a d assume a: "data (fst (add_prices s symbol entries)) a = Some d"
    show "sorted (ts d) \<and> length (price d) = length (ts d)"
    proof (cases "a = symbol")
      case True
      with a d'(1) have "d = d'" by simp
      with new show ?thesis by simp
    next
      case False
      with a d'(1) have "data s a = Some d" by simp
      with inv show ?thesis by blast
    qed
  qed
qed

lemma add_prices_calls_model:
  assumes "\<forall>a d. data s a = Some d \<longrightarrow> sorted (ts d) \<and> length (price d) = length (ts d)"
    and "\<forall>c \<in> set calls. sorted (map fst (snd c))"
  shows "\<forall>a d. data (add_prices_calls s calls) a = Some d \<longrightarrow>
           sorted (ts d) \<and> length (price d) = length (ts d)"
  using assms
proof (induction calls arbitrary: s)
  case Nil
  then show ?case by simp
next
  case (Cons c calls)
  obtain symbol entries where c: "c = (symbol, entries)" by (cases c)
  with Cons.prems have "sorted (map fst entries)" by simp
  with Cons.prems(1)
  have "\<forall>a d. data (fst (add_prices s symbol entries)) a = Some d \<longrightarrow>
          sorted (ts d) \<and> length (price d) = length (ts d)"
    by (rule add_prices_model)
  moreover from Cons.prems have "\<forall>c \<in> set calls. sorted (map fst (snd c))" by simp
  ultimately have "\<forall>a d. data (add_prices_calls (fst (add_prices s symbol entries)) calls) a = Some d \<longrightarrow>
           sorted (ts d) \<and> length (price d) = length (ts d)"
    by (rule Cons.IH)
  with c show ?case by simp
qed

lemma new_store_calls_model:
  assumes "\<forall>c \<in> set calls. sorted (map fst (snd c))"
    and "data (add_prices_calls (PriceStore w) calls) asset = Some d"
  shows "sorted (ts d) \<and> length (price d) = length (ts d)"
proof -
  have "\<forall>a d. data (PriceStore w) a = Some d \<longrightarrow>
          sorted (ts d) \<and> length (price d) = length (ts d)"
    by (simp add: PriceStore_def)
  from add_prices_calls_model[OF this assms(1)] assms(2) show ?thesis by blast
qed

subsection \<open>The scenario store\<close>

text \<open>Scenario 1 of the specification: the insert into a new store builds \<open>scenario_store\<close>.\<close>

lemma scenario_store_built:
  "add_prices (PriceStore 30) ''X'' [(1000, 100), (1060, 101), (1120, 102)] =
     (scenario_store, None)"
  by (simp add: scenario_store_def scenario_series_def add_prices_def dd_getitem_def
      PriceStore_def empty_series_def insert_entries_def prune_def cutoff_ts_def
      fromtimestamp_def TIME_T_MIN_def TIME_T_MAX_def GMTIME_MIN_def GMTIME_MAX_def timedelta_days_def datetime_sub_def MIN_TS_def MAX_TS_def
      bisect_left_def bisect_loop.simps store_series_def)

subsection \<open>Nearest entry\<close>

text \<open>
  Claim C3. For an asset whose stored series is not empty (its timestamps sorted and its
  two lists of equal length, as \<^verbatim>\<open>add_prices\<close> keeps them), \<^verbatim>\<open>get_closest_price\<close>
  returns the stored entry at some index \<open>i\<close> such that no stored timestamp is nearer to
  \<open>time\<close> than the one at \<open>i\<close>, and every stored timestamp at the same distance from
  \<open>time\<close> is at or after the one at \<open>i\<close>: of two equidistant timestamps the earlier
  one is returned.
\<close>

theorem get_closest_price_nearest:
  assumes stored: "data s asset = Some d" and nonempty: "ts d \<noteq> []"
    and srt: "sorted (ts d)" and par: "length (price d) = length (ts d)"
  shows "\<exists>i<length (ts d).
           fst (get_closest_price s asset time) = Inr (Some (ts d ! i, price d ! i)) \<and>
           (\<forall>j<length (ts d). \<bar>ts d ! i - time\<bar> \<le> \<bar>ts d ! j - time\<bar>) \<and>
           (\<forall>j<length (ts d). \<bar>ts d ! j - time\<bar> = \<bar>ts d ! i - time\<bar> \<longrightarrow> ts d ! i \<le> ts d ! j)"
proof -
  let ?a = "ts d"
  let ?n = "length ?a"
  let ?pos = "bisect_left ?a time"
  have n: "0 < ?n" using nonempty by simp
  have pos_le: "?pos \<le> ?n" by (rule bisect_left_le)
  have below: "?a ! j < time" if "j < ?pos" for j
    using srt that by (rule bisect_left_below)
  have above: "time \<le> ?a ! j" if "?pos \<le> j" "j < ?n" for j
    using srt that by (rule bisect_left_above)
  have mono: "?a ! j \<le> ?a ! k" if "j \<le> k" "k < ?n" for j k
    using srt that by (simp add: sorted_nth_mono)
  have pick: "\<exists>i<?n. fst (get_closest_price s asset time) = Inr (Some (?a ! i, price d ! i)) \<and>
           (\<forall>j<?n. \<bar>?a ! i - time\<bar> \<le> \<bar>?a ! j - time\<bar>) \<and>
           (\<forall>j<?n. \<bar>?a ! j - time\<bar> = \<bar>?a ! i - time\<bar> \<longrightarrow> ?a ! i \<le> ?a ! j)"
    if i: "i < ?n" and res: "fst (get_closest_price s asset time) = Inr (Some (?a ! i, price d ! i))"
      and best: "\<And>j. j < ?n \<Longrightarrow> \<bar>?a ! i - time\<bar> \<le> \<bar>?a ! j - time\<bar>"
      and tie: "\<And>j. j < ?n \<Longrightarrow> \<bar>?a ! j - time\<bar> = \<bar>?a ! i - time\<bar> \<Longrightarrow> ?a ! i \<le> ?a ! j"
    for i
    using that by blast
  consider (first) "?pos = 0" | (past) "?pos \<noteq> 0" "?pos = ?n"
    | (between) "?pos \<noteq> 0" "?pos \<noteq> ?n" by blast
  then show ?thesis
  proof cases
    case first
    show ?thesis
    proof (rule pick[of 0])
      show "0 < ?n" by (rule n)
      show "fst (get_closest_price s asset time) = Inr (Some (?a ! 0, price d ! 0))"
        using stored nonempty par first n
        by (simp add: get_closest_price_def dd_get_def entry_at_def Let_def)
    next
      fix j assume j: "j < ?n"
      from above[of j] first j have "time \<le> ?a ! j" by simp
      moreover from above[of 0] first n have "time \<le> ?a ! 0" by simp
      moreover from mono[of 0 j] j have "?a ! 0 \<le> ?a ! j" by simp
      ultimately show "\<bar>?a ! 0 - time\<bar> \<le> \<bar>?a ! j - time\<bar>" by linarith
    next
      fix j assume "j < ?n"
      with mono[of 0 j] show "?a ! 0 \<le> ?a ! j" by simp
    qed
  next
    case past
    let ?i = "?n - 1"
    have i: "?i < ?n" using n by simp
    show ?thesis
    proof (rule pick[of ?i])
      show "?i < ?n" by (rule i)
      have "price d \<noteq> []" using par nonempty by auto
      then show "fst (get_closest_price s asset time) = Inr (Some (?a ! ?i, price d ! ?i))"
        using stored nonempty par past
        by (simp add: get_closest_price_def dd_get_def last_conv_nth Let_def)
    next
      fix j assume j: "j < ?n"
      from below[of j] past j have "?a ! j < time" by simp
      moreover from below[of ?i] past i have "?a ! ?i < time" by simp
      moreover from mono[of j ?i] j i have "?a ! j \<le> ?a ! ?i" by simp
      ultimately show "\<bar>?a ! ?i - time\<bar> \<le> \<bar>?a ! j - time\<bar>" by linarith
    next
      fix j assume j: "j < ?n" and eq: "\<bar>?a ! j - time\<bar> = \<bar>?a ! ?i - time\<bar>"
      from below[of j] past j have "?a ! j < time" by simp
      moreover from below[of ?i] past i have "?a ! ?i < time" by simp
      ultimately show "?a ! ?i \<le> ?a ! j" using eq by linarith
    qed
  next
    case between
    let ?b = "?pos - 1"
    from between pos_le have b: "?b < ?pos" "?pos < ?n" "?b < ?n" by simp_all
    have lo: "?a ! ?b < time" using below[of ?b] b by simp
    have hi: "time \<le> ?a ! ?pos" using above[of ?pos] b by simp
    have left: "?a ! j \<le> ?a ! ?b" if "j < ?pos" for j
      using mono[of j ?b] that b by simp
    have right: "?a ! ?pos \<le> ?a ! j" if "?pos \<le> j" "j < ?n" for j
      using mono[of ?pos j] that by simp
    show ?thesis
    proof (cases "time - ?a ! ?b \<le> ?a ! ?pos - time")
      case True
      show ?thesis
      proof (rule pick[of ?b])
        show "?b < ?n" using b by simp
        show "fst (get_closest_price s asset time) = Inr (Some (?a ! ?b, price d ! ?b))"
          using stored nonempty par between True b
          by (simp add: get_closest_price_def dd_get_def entry_at_def Let_def)
      next
        fix j assume j: "j < ?n"
        show "\<bar>?a ! ?b - time\<bar> \<le> \<bar>?a ! j - time\<bar>"
        proof (cases "j < ?pos")
          case True
          from left[OF True] lo show ?thesis by linarith
        next
          case False
          with right[of j] j have "?a ! ?pos \<le> ?a ! j" by simp
          with lo hi True show ?thesis by linarith
        qed
      next
        fix j assume j: "j < ?n" and eq: "\<bar>?a ! j - time\<bar> = \<bar>?a ! ?b - time\<bar>"
        show "?a ! ?b \<le> ?a ! j"
        proof (cases "j < ?pos")
          case True
          from left[OF True] lo eq show ?thesis by linarith
        next
          case False
          with right[of j] j have "?a ! ?pos \<le> ?a ! j" by simp
          with lo hi show ?thesis by linarith
        qed
      qed
    next
      case False
      show ?thesis
      proof (rule pick[of ?pos])
        show "?pos < ?n" using b by simp
        show "fst (get_closest_price s asset time) = Inr (Some (?a ! ?pos, price d ! ?pos))"
          using stored nonempty par between False b
          by (simp add: get_closest_price_def dd_get_def entry_at_def Let_def)
      next
        fix j assume j: "j < ?n"
        show "\<bar>?a ! ?pos - time\<bar> \<le> \<bar>?a ! j - time\<bar>"
        proof (cases "j < ?pos")
          case True
          from left[OF True] lo hi False show ?thesis by linarith
        next
          case ge: False
          with right[of j] j have "?a ! ?pos \<le> ?a ! j" by simp
          with hi show ?thesis by linarith
        qed
      next
        fix j assume j: "j < ?n" and eq: "\<bar>?a ! j - time\<bar> = \<bar>?a ! ?pos - time\<bar>"
        show "?a ! ?pos \<le> ?a ! j"
        proof (cases "j < ?pos")
          case True
          from left[OF True] lo hi False eq show ?thesis by linarith
        next
          case ge: False
          with right[of j] j show ?thesis by simp
        qed
      qed
    qed
  qed
qed

text \<open>
  The theorem at the series of three ticks and the time 1090, halfway between 1060 and
  1120: the entry at 1060 is returned.
\<close>

theorem get_closest_price_nearest_witness:
  "fst (get_closest_price scenario_store ''X'' 1090) = Inr (Some (1060, 101)) \<and>
   (\<exists>i<length (ts scenario_series).
      fst (get_closest_price scenario_store ''X'' 1090) =
        Inr (Some (ts scenario_series ! i, price scenario_series ! i)) \<and>
      (\<forall>j<length (ts scenario_series).
         \<bar>ts scenario_series ! i - 1090\<bar> \<le> \<bar>ts scenario_series ! j - 1090\<bar>) \<and>
      (\<forall>j<length (ts scenario_series).
         \<bar>ts scenario_series ! j - 1090\<bar> = \<bar>ts scenario_series ! i - 1090\<bar> \<longrightarrow>
         ts scenario_series ! i \<le> ts scenario_series ! j))"
proof -
  have stored: "data scenario_store ''X'' = Some scenario_series"
    by (simp add: scenario_store_def)
  have nonempty: "ts scenario_series \<noteq> []"
    by (simp add: scenario_series_def)
  have srt: "sorted (ts scenario_series)"
    by (simp add: scenario_series_def)
  have par: "length (price scenario_series) = length (ts scenario_series)"
    by (simp add: scenario_series_def)
  have returned: "fst (get_closest_price scenario_store ''X'' 1090) = Inr (Some (1060, 101))"
    by (simp add: scenario_store_def scenario_series_def get_closest_price_def dd_get_def
        entry_at_def bisect_left_def bisect_loop.simps)
  show ?thesis
    by (rule conjI[OF returned get_closest_price_nearest[OF stored nonempty srt par]])
qed

subsection \<open>\<^verbatim>\<open>get_prices\<close>\<close>

lemma spacing_snoc:
  assumes "acc \<noteq> []"
    and "\<forall>i. Suc i < length acc \<longrightarrow> res \<le> fst (acc ! Suc i) - fst (acc ! i)"
    and "res \<le> fst e - fst (last acc)"
  shows "\<forall>i. Suc i < length (acc @ [e]) \<longrightarrow>
           (res::int) \<le> fst ((acc @ [e]) ! Suc i) - fst ((acc @ [e]) ! i)"
proof (intro allI impI)
  fix i assume i: "Suc i < length (acc @ [e])"
  show "res \<le> fst ((acc @ [e]) ! Suc i) - fst ((acc @ [e]) ! i)"
  proof (cases "Suc i < length acc")
    case True
    with assms(2) show ?thesis by (simp add: nth_append)
  next
    case False
    with i have "Suc i = length acc" by simp
    then have "i = length acc - 1" "(acc @ [e]) ! Suc i = e" by simp_all
    with assms(1,3) show ?thesis by (simp add: nth_append last_conv_nth)
  qed
qed

text \<open>
  The loop of \<^verbatim>\<open>get_prices\<close> only appends to \<^verbatim>\<open>result\<close>, keeps the spacing, and
  appends entries of the indices it runs over.
\<close>

lemma scan_result:
  assumes "acc \<noteq> []" "target = fst (last acc) + res"
    and "\<forall>i. Suc i < length acc \<longrightarrow> res \<le> fst (acc ! Suc i) - fst (acc ! i)"
    and "\<forall>i \<in> set idxs. i < length prs"
  shows "\<exists>r'. scan tss prs res idxs target acc = Inr (acc @ r') \<and>
           (\<forall>i. Suc i < length (acc @ r') \<longrightarrow>
              res \<le> fst ((acc @ r') ! Suc i) - fst ((acc @ r') ! i)) \<and>
           (\<forall>e \<in> set r'. \<exists>i \<in> set idxs. e = (tss ! i, prs ! i))"
  using assms
proof (induction idxs arbitrary: target acc)
  case Nil
  then show ?case by simp
next
  case (Cons i idxs)
  from Cons.prems(4) have i: "i < length prs" and rest: "\<forall>i \<in> set idxs. i < length prs"
    by simp_all
  show ?case
  proof (cases "target \<le> tss ! i")
    case True
    let ?e = "(tss ! i, prs ! i)"
    let ?acc = "acc @ [?e]"
    from True Cons.prems(2) have "res \<le> fst ?e - fst (last acc)" by simp
    with Cons.prems(1,3)
    have sp: "\<forall>k. Suc k < length ?acc \<longrightarrow> res \<le> fst (?acc ! Suc k) - fst (?acc ! k)"
      by (rule spacing_snoc)
    have "?acc \<noteq> []" "tss ! i + res = fst (last ?acc) + res" by simp_all
    from Cons.IH[OF this sp rest] obtain r' where
      r': "scan tss prs res idxs (tss ! i + res) ?acc = Inr (?acc @ r')"
        "\<forall>k. Suc k < length (?acc @ r') \<longrightarrow>
              res \<le> fst ((?acc @ r') ! Suc k) - fst ((?acc @ r') ! k)"
        "\<forall>e \<in> set r'. \<exists>i \<in> set idxs. e = (tss ! i, prs ! i)"
      by blast
    have "scan tss prs res (i # idxs) target acc = Inr (acc @ (?e # r'))"
      using True i r'(1) by (simp add: Let_def)
    moreover have "\<forall>k. Suc k < length (acc @ (?e # r')) \<longrightarrow>
              res \<le> fst ((acc @ (?e # r')) ! Suc k) - fst ((acc @ (?e # r')) ! k)"
      using r'(2) by simp
    moreover have "\<forall>e \<in> set (?e # r'). \<exists>j \<in> set (i # idxs). e = (tss ! j, prs ! j)"
      using r'(3) by auto
    ultimately show ?thesis by blast
  next
    case False
    from Cons.IH[OF Cons.prems(1,2,3) rest] obtain r' where
      r': "scan tss prs res idxs target acc = Inr (acc @ r')"
        "\<forall>k. Suc k < length (acc @ r') \<longrightarrow>
              res \<le> fst ((acc @ r') ! Suc k) - fst ((acc @ r') ! k)"
        "\<forall>e \<in> set r'. \<exists>i \<in> set idxs. e = (tss ! i, prs ! i)"
      by blast
    have "scan tss prs res (i # idxs) target acc = Inr (acc @ r')"
      using False r'(1) by (simp add: Let_def)
    moreover have "\<forall>e \<in> set r'. \<exists>j \<in> set (i # idxs). e = (tss ! j, prs ! j)"
      using r'(3) by auto
    ultimately show ?thesis using r'(2) by blast
  qed
qed

text \<open>What \<^verbatim>\<open>get_prices\<close> returns once the start index is computed.\<close>

lemma get_prices_from_start:
  assumes stored: "data s asset = Some d" and nonempty: "ts d \<noteq> []"
    and par: "length (price d) = length (ts d)"
    and start: "start_index (ts d) days = Inr k"
  shows "if length (ts d) \<le> k then fst (get_prices s asset days resolution) = Inr []
         else (\<exists>r'. fst (get_prices s asset days resolution) =
                      Inr ((ts d ! k, price d ! k) # r') \<and>
                 (\<forall>i. Suc i < length ((ts d ! k, price d ! k) # r') \<longrightarrow>
                    resolution \<le> fst (((ts d ! k, price d ! k) # r') ! Suc i)
                      - fst (((ts d ! k, price d ! k) # r') ! i)) \<and>
                 (\<forall>e \<in> set r'. \<exists>i. k < i \<and> i < length (ts d) \<and> e = (ts d ! i, price d ! i)))"
proof (cases "length (ts d) \<le> k")
  case True
  with stored nonempty start show ?thesis
    by (simp add: get_prices_def dd_get_def)
next
  case False
  let ?e = "(ts d ! k, price d ! k)"
  have "[?e] \<noteq> []" "ts d ! k + resolution = fst (last [?e]) + resolution"
    "\<forall>i. Suc i < length [?e] \<longrightarrow> resolution \<le> fst ([?e] ! Suc i) - fst ([?e] ! i)"
    "\<forall>i \<in> set [k + 1..<length (ts d)]. i < length (price d)"
    using par by simp_all
  from scan_result[OF this, of "ts d"] obtain r' where
    r': "scan (ts d) (price d) resolution [k + 1..<length (ts d)] (ts d ! k + resolution) [?e]
           = Inr ([?e] @ r')"
      "\<forall>i. Suc i < length ([?e] @ r') \<longrightarrow>
              resolution \<le> fst (([?e] @ r') ! Suc i) - fst (([?e] @ r') ! i)"
      "\<forall>e \<in> set r'. \<exists>i \<in> set [k + 1..<length (ts d)]. e = (ts d ! i, price d ! i)"
    by blast
  have "fst (get_prices s asset days resolution) = Inr (?e # r')"
    using stored nonempty start False par r'(1)
    by (simp add: get_prices_def dd_get_def Let_def)
  moreover have "\<forall>e \<in> set r'. \<exists>i. k < i \<and> i < length (ts d) \<and> e = (ts d ! i, price d ! i)"
  proof
    fix e assume "e \<in> set r'"
    with r'(3) obtain i where "i \<in> set [k + 1..<length (ts d)]" "e = (ts d ! i, price d ! i)"
      by blast
    then have "k < i \<and> i < length (ts d) \<and> e = (ts d ! i, price d ! i)" by simp
    then show "\<exists>i. k < i \<and> i < length (ts d) \<and> e = (ts d ! i, price d ! i)" ..
  qed
  ultimately show ?thesis using False r'(2) by auto
qed



text \<open>
  Claim C4. For a stored series sorted by timestamp (with one price per timestamp), any
  \<^verbatim>\<open>days\<close> for which the start index is computed, and any resolution, \<^verbatim>\<open>get_prices\<close>
  returns a sequence in which each entry is at least \<open>resolution\<close> after the entry
  before it; when the start index \<open>k\<close> is inside the series, the sequence is not empty, its
  first entry is the stored entry at index \<open>k\<close>, and no returned entry is earlier.
\<close>

theorem get_prices_spacing:
  assumes stored: "data s asset = Some d" and srt: "sorted (ts d)"
    and par: "length (price d) = length (ts d)"
    and start: "start_index (ts d) days = Inr k"
  shows "\<exists>r. fst (get_prices s asset days resolution) = Inr r \<and>
           (\<forall>i. Suc i < length r \<longrightarrow> resolution \<le> fst (r ! Suc i) - fst (r ! i)) \<and>
           (k < length (ts d) \<longrightarrow>
              r \<noteq> [] \<and> r ! 0 = (ts d ! k, price d ! k) \<and> (\<forall>e \<in> set r. fst (r ! 0) \<le> fst e))"
proof (cases "ts d = []")
  case True
  with stored show ?thesis by (simp add: get_prices_def dd_get_def)
next
  case nonempty: False
  note from_start = get_prices_from_start[OF stored nonempty par start, of resolution]
  show ?thesis
  proof (cases "length (ts d) \<le> k")
    case True
    with from_start show ?thesis by simp
  next
    case False
    let ?e = "(ts d ! k, price d ! k)"
    from from_start False obtain r' where
      r': "fst (get_prices s asset days resolution) = Inr (?e # r')"
        "\<forall>i. Suc i < length (?e # r') \<longrightarrow>
            resolution \<le> fst ((?e # r') ! Suc i) - fst ((?e # r') ! i)"
        "\<forall>e \<in> set r'. \<exists>i. k < i \<and> i < length (ts d) \<and> e = (ts d ! i, price d ! i)"
      by auto
    have "\<forall>e \<in> set (?e # r'). fst ((?e # r') ! 0) \<le> fst e"
    proof
      fix e assume "e \<in> set (?e # r')"
      then consider "e = ?e" | "e \<in> set r'" by auto
      then show "fst ((?e # r') ! 0) \<le> fst e"
      proof cases
        case 1
        then show ?thesis by simp
      next
        case 2
        with r'(3) obtain i where i: "k < i" "i < length (ts d)" "e = (ts d ! i, price d ! i)"
          by blast
        with srt have "ts d ! k \<le> ts d ! i" by (simp add: sorted_nth_mono)
        with i show ?thesis by simp
      qed
    qed
    with r'(1,2) show ?thesis by (intro exI[of _ "?e # r'"]) simp
  qed
qed

text \<open>
  Scenario 1 of the specification: at resolution 120 the tick at 1060 is left out.
\<close>

theorem get_prices_spacing_witness:
  "start_index (ts scenario_series) None = Inr 0 \<and>
   fst (get_prices scenario_store ''X'' None 120) = Inr [(1000, 100), (1120, 102)] \<and>
   (\<exists>r. fst (get_prices scenario_store ''X'' None 120) = Inr r \<and>
        (\<forall>i. Suc i < length r \<longrightarrow> 120 \<le> fst (r ! Suc i) - fst (r ! i)) \<and>
        (0 < length (ts scenario_series) \<longrightarrow>
           r \<noteq> [] \<and> r ! 0 = (ts scenario_series ! 0, price scenario_series ! 0) \<and>
           (\<forall>e \<in> set r. fst (r ! 0) \<le> fst e)))"
proof -
  have stored: "data scenario_store ''X'' = Some scenario_series"
    by (simp add: scenario_store_def)
  have srt: "sorted (ts scenario_series)"
    by (simp add: scenario_series_def)
  have par: "length (price scenario_series) = length (ts scenario_series)"
    by (simp add: scenario_series_def)
  have start: "start_index (ts scenario_series) None = Inr 0"
    by (simp add: start_index_def)
  have returned:
    "fst (get_prices scenario_store ''X'' None 120) = Inr [(1000, 100), (1120, 102)]"
    by (simp add: scenario_store_def scenario_series_def get_prices_def dd_get_def
        start_index_def upt_conv_Cons)
  show ?thesis
    by (intro conjI start returned get_prices_spacing[OF stored srt par start])
qed




subsection \<open>Inserting one entry at or before the last timestamp\<close>

lemma insert_single_equal:
  "ts d \<noteq> [] \<Longrightarrow> price d \<noteq> [] \<Longrightarrow>
   insert_entries d [(last (ts d), p)] =
     (d\<lparr>price := (price d)[length (price d) - 1 := p]\<rparr>, None)"
  by (simp add: insert_entries_def)


lemma add_prices_known:
  assumes "data s symbol = Some d" "entries \<noteq> []" "insert_entries d entries = (d1, None)"
  shows "add_prices s symbol entries = (store_series s symbol (fst (prune d1)), snd (prune d1))"
  using assms by (simp add: add_prices_def dd_getitem_def split: prod.split)




text \<open>
  Claim C5. For an asset with a non-empty stored series (timestamps sorted, one price per
  timestamp), \<^verbatim>\<open>add_prices\<close> with the single entry \<open>(last timestamp, p)\<close> replaces the
  series by one with the same timestamps and as many prices, in which every price but the
  last is as before and the last price is \<open>p\<close>; the rest of the store is unchanged.
\<close>

theorem add_prices_overwrites_last:
  assumes stored: "data s asset = Some d" and nonempty: "ts d \<noteq> []"
    and srt: "sorted (ts d)" and par: "length (price d) = length (ts d)"
  shows "\<exists>d'. fst (add_prices s asset [(last (ts d), p)]) = s\<lparr>data := (data s)(asset \<mapsto> d')\<rparr> \<and>
           ts d' = ts d \<and>
           length (price d') = length (price d) \<and>
           (\<forall>i<length (price d) - 1. price d' ! i = price d ! i) \<and>
           price d' ! (length (price d) - 1) = p"
proof -
  let ?d' = "d\<lparr>price := (price d)[length (price d) - 1 := p]\<rparr>"
  from nonempty par have pne: "price d \<noteq> []" by auto
  from srt have "sorted (ts ?d')" by simp
  then have "fst (prune ?d') = ?d'" by (rule prune_sorted)
  with add_prices_known[OF stored _ insert_single_equal[OF nonempty pne]]
  have "fst (add_prices s asset [(last (ts d), p)]) = s\<lparr>data := (data s)(asset \<mapsto> ?d')\<rparr>"
    by (simp add: store_series_def)
  moreover have "ts ?d' = ts d" "length (price ?d') = length (price d)"
    "\<forall>i<length (price d) - 1. price ?d' ! i = price d ! i"
    by simp_all
  moreover have "price ?d' ! (length (price d) - 1) = p"
    using pne by simp
  ultimately show ?thesis by blast
qed

text \<open>The theorem at the scenario store: the price at 1120 becomes 110.\<close>

theorem add_prices_overwrites_last_witness:
  "fst (add_prices scenario_store ''X'' [(1120, 110)]) =
     scenario_store\<lparr>data := (data scenario_store)(''X'' \<mapsto>
        \<lparr>ts = [1000, 1060, 1120], price = [100, 101, 110]\<rparr>)\<rparr> \<and>
   (\<exists>d'. fst (add_prices scenario_store ''X'' [(last (ts scenario_series), 110)]) =
           scenario_store\<lparr>data := (data scenario_store)(''X'' \<mapsto> d')\<rparr> \<and>
        ts d' = ts scenario_series \<and>
        length (price d') = length (price scenario_series) \<and>
        (\<forall>i<length (price scenario_series) - 1. price d' ! i = price scenario_series ! i) \<and>
        price d' ! (length (price scenario_series) - 1) = 110)"
proof -
  have stored: "data scenario_store ''X'' = Some scenario_series"
    by (simp add: scenario_store_def)
  have nonempty: "ts scenario_series \<noteq> []"
    by (simp add: scenario_series_def)
  have srt: "sorted (ts scenario_series)"
    by (simp add: scenario_series_def)
  have par: "length (price scenario_series) = length (ts scenario_series)"
    by (simp add: scenario_series_def)
  have computed: "fst (add_prices scenario_store ''X'' [(1120, 110)]) =
     scenario_store\<lparr>data := (data scenario_store)(''X'' \<mapsto>
        \<lparr>ts = [1000, 1060, 1120], price = [100, 101, 110]\<rparr>)\<rparr>"
    by (simp add: scenario_store_def scenario_series_def add_prices_def dd_getitem_def
        insert_entries_def prune_def cutoff_ts_def fromtimestamp_def TIME_T_MIN_def TIME_T_MAX_def GMTIME_MIN_def GMTIME_MAX_def timedelta_days_def
        datetime_sub_def MIN_TS_def MAX_TS_def bisect_left_def bisect_loop.simps
        store_series_def)
  show ?thesis
    by (rule conjI[OF computed add_prices_overwrites_last[OF stored nonempty srt par]])
qed




end
